theory Spec2Isabelle
  imports Complex_Main
begin

section \<open>The invoice reminder edge function\<close>

text \<open>
  The edge function \<^verbatim>\<open>invoice-reminder.ts\<close> reads every open invoice, walks through
  them one by one, skips those that are not due or have had three reminders, looks up the
  owner's e-mail address, posts a reminder to the Resend API and then writes
  \<^verbatim>\<open>reminder_sent_at\<close> and \<^verbatim>\<open>reminder_count\<close> back. The model below follows the
  handler statement by statement. Everything the handler gets from outside (the clock, the
  answers of the data store and of the e-mail provider) is an explicit argument; every
  call it makes to the outside is appended to a trace.

  Left out: the environment variables and the creation of the client, the CORS headers,
  and the constant \<^verbatim>\<open>sevenDaysAgo\<close>, which the handler computes and never uses.
  The amount is a number or null. The calls to the data store are taken to settle: they
  return rows or an error.
\<close>

subsection \<open>Rows\<close>

text \<open>
  A row of \<^verbatim>\<open>invoices\<close> as the select returns it. A JSON \<^verbatim>\<open>null\<close> is \<open>None\<close>.
  The field \<^verbatim>\<open>id\<close> is called \<open>inv_id\<close> here.
\<close>

record invoice =
  inv_id :: string
  user_id :: string
  amount :: "rat option"
  due_date :: "string option"
  payment_reference :: "string option"
  reminder_sent_at :: "string option"
  reminder_count :: "int option"
  status :: string

text \<open>A row of \<^verbatim>\<open>profiles\<close>, restricted to the selected columns.\<close>

record profile =
  email :: "string option"
  first_name :: "string option"
  last_name :: "string option"

subsection \<open>Thrown values and completions\<close>

datatype js_error = PostgrestError string | TypeError string | Error string

fun message :: "js_error \<Rightarrow> string" where
  "message (PostgrestError m) = m"
| "message (TypeError m) = m"
| "message (Error m) = m"

text \<open>
  How an awaited call or a block of statements ends: it completes, it throws, or the
  promise it awaits never settles.
\<close>

datatype completion = Normal | Throws js_error | Never

subsection \<open>The outside world\<close>

text \<open>
  The answer of \<^verbatim>\<open>.from('profiles').select(...).eq('id', inv.user_id).single()\<close>:
  the pair \<^verbatim>\<open>{ data: user, error: userError }\<close>.
\<close>

record lookup_result =
  user :: "profile option"
  userError :: "js_error option"

text \<open>
  The outcome of \<^verbatim>\<open>fetch('https://api.resend.com/emails', ...)\<close>: the promise is
  rejected (a network error), it is fulfilled with a response (\<^verbatim>\<open>res.ok\<close> and the
  text of the body), or it never settles. The call carries no \<^verbatim>\<open>signal\<close>, so nothing
  in the function ends a pending request.
\<close>

datatype fetch_result = Rejected string | Response bool string | Pending

text \<open>
  What the outside world answers during one iteration of the loop: the profile lookup,
  the provider, and the error (if any) that the \<^verbatim>\<open>update\<close> of the invoice returns.
  The query builder returns its error in the result object; it does not throw.
\<close>

record item_io =
  profile_reply :: lookup_result
  resend_reply :: fetch_result
  update_error :: "js_error option"

text \<open>
  One invocation: the clock (\<^verbatim>\<open>new Date()\<close> as a time value in milliseconds), the
  error of the bulk read (if it fails), and the answers for the iterations of the loop,
  by position in the batch.
\<close>

record env =
  now :: int
  select_error :: "js_error option"
  replies :: "nat \<Rightarrow> item_io"

text \<open>
  The functions of the JavaScript runtime that the handler calls on its data:
  \<^verbatim>\<open>new Date(s).getTime()\<close> for the string of the \<^verbatim>\<open>due_date\<close> field, which is
  \<open>None\<close> when the string is not a date (an Invalid Date, whose time value is NaN),
  \<^verbatim>\<open>n.toFixed(2)\<close> and \<^verbatim>\<open>d.toISOString()\<close>. They are parameters of the model.
\<close>

record runtime =
  Date_parse :: "string \<Rightarrow> int option"
  toFixed2 :: "rat \<Rightarrow> string"
  toISOString :: "int \<Rightarrow> string"

subsection \<open>State and trace\<close>

record email =
  mail_to :: string
  mail_subject :: string
  mail_html :: string

text \<open>
  The calls an iteration makes, each with the invoice being processed: the profile query,
  the POST to the provider with its outcome, the update of the invoice row (the values
  written, and the error the data store returned), and a line on \<^verbatim>\<open>console.error\<close>.
\<close>

datatype event =
    ProfileQuery invoice
  | ResendPost invoice email fetch_result
  | InvoiceUpdate invoice string int "js_error option"
  | ConsoleError string

record state =
  invoices_table :: "invoice list"
  remindersSent :: nat
  trace :: "event list"

datatype body = BodyText string | BodySuccess nat | BodyError string

text \<open>
  A response: its status and its body. \<open>BodySuccess n\<close> is
  \<^verbatim>\<open>{ success: true, remindersSent: n }\<close>, \<open>BodyError m\<close> is \<^verbatim>\<open>{ error: m }\<close>.
  The CORS headers are left out.
\<close>

record response =
  resp_status :: nat
  resp_body :: body

subsection \<open>sendReminderEmail\<close>

definition sendReminderEmail :: "email \<Rightarrow> fetch_result \<Rightarrow> completion" where
  "sendReminderEmail mail res =
     (case res of
        Pending \<Rightarrow> Never
      | Rejected m \<Rightarrow> Throws (TypeError m)
      | Response ok bt \<Rightarrow>
          if \<not> ok then Throws (Error (''Resend error: '' @ bt)) else Normal)"

subsection \<open>The loop body\<close>

text \<open>\<^verbatim>\<open>!inv.due_date\<close>: null and the empty string are falsy.\<close>

definition no_due_date :: "invoice \<Rightarrow> bool" where
  "no_due_date iv = (case due_date iv of None \<Rightarrow> True | Some s \<Rightarrow> s = [])"

definition seven_days :: int where
  "seven_days = 7 * 24 * 60 * 60 * 1000"

text \<open>
  \<^verbatim>\<open>due > now && (due.getTime() - now.getTime()) > 7 * 24 * 60 * 60 * 1000\<close>.
  For an Invalid Date both comparisons are with NaN and are false.
\<close>

definition beyond_window :: "runtime \<Rightarrow> int \<Rightarrow> invoice \<Rightarrow> bool" where
  "beyond_window rt t iv =
     (case due_date iv of
        None \<Rightarrow> False
      | Some s \<Rightarrow>
          (case Date_parse rt s of
             None \<Rightarrow> False
           | Some due \<Rightarrow> due > t \<and> due - t > seven_days))"

text \<open>\<^verbatim>\<open>inv.reminder_count && inv.reminder_count >= 3\<close>: null and 0 are falsy.\<close>

definition cap_reached :: "invoice \<Rightarrow> bool" where
  "cap_reached iv =
     (case reminder_count iv of None \<Rightarrow> False | Some c \<Rightarrow> c \<noteq> 0 \<and> c \<ge> 3)"

text \<open>\<^verbatim>\<open>inv.reminder_count || 0\<close>\<close>

definition count_or_0 :: "invoice \<Rightarrow> int" where
  "count_or_0 iv = (case reminder_count iv of None \<Rightarrow> 0 | Some c \<Rightarrow> c)"

text \<open>\<^verbatim>\<open>userError || !user?.email\<close>\<close>

definition no_recipient :: "lookup_result \<Rightarrow> bool" where
  "no_recipient r =
     (case userError r of
        Some err \<Rightarrow> True
      | None \<Rightarrow>
          (case user r of
             None \<Rightarrow> True
           | Some u \<Rightarrow> (case email u of None \<Rightarrow> True | Some a \<Rightarrow> a = [])))"

text \<open>\<^verbatim>\<open>x || ''\<close> and the text of a value inside a template literal.\<close>

definition or_empty :: "string option \<Rightarrow> string" where
  "or_empty x = (case x of None \<Rightarrow> [] | Some s \<Rightarrow> s)"

definition template_text :: "string option \<Rightarrow> string" where
  "template_text x = (case x of None \<Rightarrow> ''null'' | Some s \<Rightarrow> s)"

definition euro :: string where
  "euro = [CHR 0xE2, CHR 0x82, CHR 0xAC]"

definition template_line :: "string \<Rightarrow> string" where
  "template_line l = CHR 0x0A # replicate 8 CHR '' '' @ l"

text \<open>
  The template literal of the message. \<^verbatim>\<open>inv.amount.toFixed(2)\<close> throws a TypeError
  when the amount is null.
\<close>

definition compose_html :: "runtime \<Rightarrow> profile \<Rightarrow> invoice \<Rightarrow> js_error + string" where
  "compose_html rt u iv =
     (case amount iv of
        None \<Rightarrow> Inl (TypeError ''Cannot read properties of null (reading 'toFixed')'')
      | Some a \<Rightarrow> Inr (
          template_line ''<h2>Herinnering: openstaande factuur</h2>'' @
          template_line (''<p>Beste '' @ or_empty (first_name u) @ '' '' @
            or_empty (last_name u) @ '',</p>'') @
          template_line (''<p>Uw factuur van '' @ euro @ toFixed2 rt a @
            '' met vervaldatum '' @ template_text (due_date iv) @
            '' is nog niet betaald.</p>'') @
          template_line (''<p>Gelieve te betalen op IBAN <b>BE86731056413050</b> t.n.v. '' @
            ''<b>stockflow</b> met mededeling <b>'' @
            template_text (payment_reference iv) @ ''</b>.</p>'') @
          template_line (''<p>U kunt ook eenvoudig betalen door de QR-code te scannen '' @
            ''in uw stockflow portaal.</p>'') @
          template_line ''<p>Al betaald? Dan mag u deze herinnering negeren.</p>'' @
          template_line ''<p>Met vriendelijke groet,<br/>stockflow</p>'' @
          CHR 0x0A # replicate 6 CHR '' ''))"

definition log_event :: "event \<Rightarrow> state \<Rightarrow> state" where
  "log_event e st = st\<lparr>trace := trace st @ [e]\<rparr>"

text \<open>
  \<^verbatim>\<open>.from('invoices').update({ reminder_sent_at, reminder_count }).eq('id', inv.id)\<close>:
  when the data store returns an error no row changes; otherwise every row with that id
  gets the two fields.
\<close>

definition update_invoices ::
  "js_error option \<Rightarrow> string \<Rightarrow> string \<Rightarrow> int \<Rightarrow> invoice list \<Rightarrow> invoice list" where
  "update_invoices err ident sent_at cnt tab =
     (if err \<noteq> None then tab
      else map (\<lambda>r. if inv_id r = ident
                    then r\<lparr>reminder_sent_at := Some sent_at, reminder_count := Some cnt\<rparr>
                    else r) tab)"

text \<open>
  The \<^verbatim>\<open>try { ... } catch (err) { console.error(...) }\<close> block: the dispatch, then the
  update (its result is not looked at), then \<^verbatim>\<open>remindersSent++\<close>.
\<close>

definition try_send :: "runtime \<Rightarrow> int \<Rightarrow> item_io \<Rightarrow> invoice \<Rightarrow> email \<Rightarrow> state \<Rightarrow> completion \<times> state" where
  "try_send rt t io iv mail st =
     (let st1 = log_event (ResendPost iv mail (resend_reply io)) st in
      case sendReminderEmail mail (resend_reply io) of
        Never \<Rightarrow> (Never, st1)
      | Throws err \<Rightarrow>
          (Normal, log_event (ConsoleError (''Reminder e-mail error: '' @ message err)) st1)
      | Normal \<Rightarrow>
          (let st2 = log_event
                 (InvoiceUpdate iv (toISOString rt t) (count_or_0 iv + 1) (update_error io)) st1;
               st3 = st2\<lparr>invoices_table :=
                 update_invoices (update_error io) (inv_id iv) (toISOString rt t)
                   (count_or_0 iv + 1) (invoices_table st2)\<rparr>
           in (Normal, st3\<lparr>remindersSent := remindersSent st3 + 1\<rparr>)))"

text \<open>
  One iteration of \<^verbatim>\<open>for (const inv of invoices)\<close>; \<open>Normal\<close> is also
  \<^verbatim>\<open>continue\<close>. The message is composed before the \<^verbatim>\<open>try\<close> block, so what it
  throws leaves the loop. (After the recipient check the user is present; the case
  \<open>None\<close> only completes the case distinction.)
\<close>

definition process_invoice :: "runtime \<Rightarrow> int \<Rightarrow> item_io \<Rightarrow> invoice \<Rightarrow> state \<Rightarrow> completion \<times> state" where
  "process_invoice rt t io iv st =
     (if no_due_date iv then (Normal, st)
      else if beyond_window rt t iv then (Normal, st)
      else if cap_reached iv then (Normal, st)
      else
        (let st1 = log_event (ProfileQuery iv) st in
         if no_recipient (profile_reply io) then (Normal, st1)
         else
           (case user (profile_reply io) of
              None \<Rightarrow> (Normal, st1)
            | Some u \<Rightarrow>
                (case compose_html rt u iv of
                   Inl err \<Rightarrow> (Throws err, st1)
                 | Inr html \<Rightarrow>
                     try_send rt t io iv
                       \<lparr>mail_to = or_empty (email u),
                        mail_subject = ''Herinnering: openstaande factuur stockflow'',
                        mail_html = html\<rparr> st1))))"

subsection \<open>The loop and the handler\<close>

fun loop :: "runtime \<Rightarrow> int \<Rightarrow> (nat \<Rightarrow> item_io) \<Rightarrow> nat \<Rightarrow> invoice list \<Rightarrow> state \<Rightarrow> completion \<times> state" where
  "loop rt t ios k [] st = (Normal, st)"
| "loop rt t ios k (iv # rest) st =
     (case process_invoice rt t (ios k) iv st of
        (Normal, st') \<Rightarrow> loop rt t ios (Suc k) rest st'
      | (c, st') \<Rightarrow> (c, st'))"

text \<open>\<^verbatim>\<open>.from('invoices').select(...).eq('status', 'open')\<close>\<close>

definition select_open :: "invoice list \<Rightarrow> invoice list" where
  "select_open tab = filter (\<lambda>r. status r = ''open'') tab"

definition start :: "invoice list \<Rightarrow> state" where
  "start tab = \<lparr>invoices_table = tab, remindersSent = 0, trace = []\<rparr>"

text \<open>
  The handler, for a request with the given method (\<^verbatim>\<open>req.method\<close>) on a data store
  whose invoice table is \<open>tab\<close>. The result is the response (\<open>None\<close> when the handler never answers) and the
  final state: the table, the counter and the trace.
\<close>

definition serve :: "runtime \<Rightarrow> string \<Rightarrow> env \<Rightarrow> invoice list \<Rightarrow> response option \<times> state" where
  "serve rt req_method e tab =
     (if req_method = ''OPTIONS''
      then (Some \<lparr>resp_status = 200, resp_body = BodyText ''ok''\<rparr>, start tab)
      else
        (case select_error e of
           Some err \<Rightarrow>
             (Some \<lparr>resp_status = 500, resp_body = BodyError (message err)\<rparr>, start tab)
         | None \<Rightarrow>
             (case loop rt (now e) (replies e) 0 (select_open tab) (start tab) of
                (Normal, st) \<Rightarrow>
                  (Some \<lparr>resp_status = 200, resp_body = BodySuccess (remindersSent st)\<rparr>, st)
              | (Throws err, st) \<Rightarrow>
                  (Some \<lparr>resp_status = 500, resp_body = BodyError (message err)\<rparr>, st)
              | (Never, st) \<Rightarrow> (None, st))))"

text \<open>Invocations one after the other, each on the table the previous one left.\<close>

fun runs :: "runtime \<Rightarrow> (string \<times> env) list \<Rightarrow> invoice list \<Rightarrow> invoice list" where
  "runs rt [] tab = tab"
| "runs rt ((req_method, e) # later) tab =
     runs rt later (invoices_table (snd (serve rt req_method e tab)))"

subsection \<open>Vocabulary of the properties\<close>

text \<open>The three guards at the head of the loop body let the invoice through.\<close>

definition passes_guards :: "runtime \<Rightarrow> int \<Rightarrow> invoice \<Rightarrow> bool" where
  "passes_guards rt t iv =
     (\<not> no_due_date iv \<and> \<not> beyond_window rt t iv \<and> \<not> cap_reached iv)"

text \<open>
  The provider call failed: the request was rejected, or the response was not a success.
\<close>

definition dispatch_failed :: "fetch_result \<Rightarrow> bool" where
  "dispatch_failed r =
     (case r of Rejected m \<Rightarrow> True | Response ok bt \<Rightarrow> \<not> ok | Pending \<Rightarrow> False)"

text \<open>The invoice an outside call was made for.\<close>

fun subject :: "event \<Rightarrow> invoice option" where
  "subject (ProfileQuery iv) = Some iv"
| "subject (ResendPost iv m r) = Some iv"
| "subject (InvoiceUpdate iv s c err) = Some iv"
| "subject (ConsoleError m) = None"

text \<open>A dispatch the provider confirmed.\<close>

fun confirmed :: "event \<Rightarrow> bool" where
  "confirmed (ResendPost iv m (Response ok bt)) = ok"
| "confirmed ev = False"

text \<open>
  The selection policy in the words of the specification: the reminder count is below
  three (a null count is no reminder yet), and the due date is a date that is either past
  or at most seven days ahead.
\<close>

definition below_cap :: "invoice \<Rightarrow> bool" where
  "below_cap iv = (case reminder_count iv of None \<Rightarrow> True | Some c \<Rightarrow> c < 3)"

definition within_window :: "runtime \<Rightarrow> int \<Rightarrow> invoice \<Rightarrow> bool" where
  "within_window rt t iv =
     (case due_date iv of
        None \<Rightarrow> False
      | Some s \<Rightarrow>
          s \<noteq> [] \<and>
          (case Date_parse rt s of
             None \<Rightarrow> False
           | Some due \<Rightarrow> due \<le> t \<or> due - t \<le> seven_days))"

text \<open>The \<^verbatim>\<open>due_date\<close> field holds a string that is a date.\<close>

definition due_date_parses :: "runtime \<Rightarrow> invoice \<Rightarrow> bool" where
  "due_date_parses rt iv =
     (case due_date iv of
        None \<Rightarrow> False
      | Some s \<Rightarrow> (case Date_parse rt s of None \<Rightarrow> False | Some due \<Rightarrow> True))"

definition qualifies :: "runtime \<Rightarrow> int \<Rightarrow> invoice \<Rightarrow> bool" where
  "qualifies rt t iv = (status iv = ''open'' \<and> below_cap iv \<and> within_window rt t iv)"

text \<open>The cap on a table: no row has a reminder count above three.\<close>

definition within_cap :: "invoice \<Rightarrow> bool" where
  "within_cap r = (case reminder_count r of None \<Rightarrow> True | Some c \<Rightarrow> c \<le> 3)"

definition cap_ok :: "invoice list \<Rightarrow> bool" where
  "cap_ok tab = list_all within_cap tab"

text \<open>The row after one reminder at time \<open>t\<close>.\<close>

definition reminded :: "runtime \<Rightarrow> int \<Rightarrow> invoice \<Rightarrow> invoice" where
  "reminded rt t r =
     r\<lparr>reminder_sent_at := Some (toISOString rt t), reminder_count := Some (count_or_0 r + 1)\<rparr>"

subsection \<open>Sample data\<close>

text \<open>
  A run on 1 May 2024, 08:00 UTC. The sample runtime knows the dates and amounts of the
  sample invoices.
\<close>

definition sample_now :: int where
  "sample_now = 1714550400000"

definition sample_runtime :: runtime where
  "sample_runtime =
     \<lparr>Date_parse = (\<lambda>s. if s = ''2024-05-04'' then Some 1714780800000
                         else if s = ''2024-05-11'' then Some 1715385600000
                         else if s = ''2024-04-20'' then Some 1713571200000
                         else None),
      toFixed2 = (\<lambda>a. if a = 25 / 2 then ''12.50'' else ''100.00''),
      toISOString = (\<lambda>t. ''2024-05-01T08:00:00.000Z'')\<rparr>"

definition invoice_a :: invoice where
  "invoice_a =
     \<lparr>inv_id = ''a'', user_id = ''u1'', amount = Some 100, due_date = Some ''2024-05-04'',
      payment_reference = Some ''REF-A'', reminder_sent_at = None, reminder_count = Some 0,
      status = ''open''\<rparr>"

definition invoice_b :: invoice where
  "invoice_b =
     \<lparr>inv_id = ''b'', user_id = ''u2'', amount = Some (25 / 2), due_date = Some ''2024-04-20'',
      payment_reference = Some ''REF-B'', reminder_sent_at = None, reminder_count = Some 2,
      status = ''open''\<rparr>"

definition invoice_no_amount :: invoice where
  "invoice_no_amount =
     \<lparr>inv_id = ''c'', user_id = ''u1'', amount = None, due_date = Some ''2024-05-04'',
      payment_reference = Some ''REF-C'', reminder_sent_at = None, reminder_count = None,
      status = ''open''\<rparr>"


definition invoice_undated :: invoice where
  "invoice_undated =
     \<lparr>inv_id = ''d'', user_id = ''u1'', amount = Some 100, due_date = None,
      payment_reference = Some ''REF-D'', reminder_sent_at = None, reminder_count = Some 0,
      status = ''open''\<rparr>"

definition ann :: profile where
  "ann = \<lparr>email = Some ''ann@example.com'', first_name = Some ''Ann'', last_name = None\<rparr>"

definition found_ann :: lookup_result where
  "found_ann = \<lparr>user = Some ann, userError = None\<rparr>"

text \<open>Everything works; the provider refuses; the provider never answers; the update fails.\<close>

definition io_ok :: item_io where
  "io_ok = \<lparr>profile_reply = found_ann, resend_reply = Response True ''{}'',
            update_error = None\<rparr>"

definition io_refused :: item_io where
  "io_refused = \<lparr>profile_reply = found_ann, resend_reply = Response False ''rate limit'',
                 update_error = None\<rparr>"

definition io_pending :: item_io where
  "io_pending = \<lparr>profile_reply = found_ann, resend_reply = Pending, update_error = None\<rparr>"

definition io_update_fails :: item_io where
  "io_update_fails = \<lparr>profile_reply = found_ann, resend_reply = Response True ''{}'',
                      update_error = Some (PostgrestError ''connection lost'')\<rparr>"

definition world :: "(nat \<Rightarrow> item_io) \<Rightarrow> env" where
  "world ios = \<lparr>now = sample_now, select_error = None, replies = ios\<rparr>"

definition world_read_fails :: env where
  "world_read_fails =
     \<lparr>now = sample_now, select_error = Some (PostgrestError ''permission denied''),
      replies = (\<lambda>k. io_ok)\<rparr>"

text \<open>The message the handler composes for a recipient and an invoice that has an amount.\<close>

definition mail_for :: "runtime \<Rightarrow> profile \<Rightarrow> invoice \<Rightarrow> email" where
  "mail_for rt u iv =
     \<lparr>mail_to = or_empty (email u),
      mail_subject = ''Herinnering: openstaande factuur stockflow'',
      mail_html = (case compose_html rt u iv of Inl err \<Rightarrow> [] | Inr h \<Rightarrow> h)\<rparr>"

text \<open>Worlds in which every iteration gets the same answers.\<close>

definition world_ok :: env where
  "world_ok = world (\<lambda>k. io_ok)"

definition world_refused :: env where
  "world_refused = world (\<lambda>k. io_refused)"

definition world_pending :: env where
  "world_pending = world (\<lambda>k. io_pending)"

definition world_update_fails :: env where
  "world_update_fails = world (\<lambda>k. io_update_fails)"

text \<open>
  What a run did for a row, read off its trace at time \<open>t\<close>: the update that adds one
  reminder to the row was made and the data store accepted it; the provider confirmed a
  dispatch for the row.
\<close>

definition update_applied :: "runtime \<Rightarrow> int \<Rightarrow> event list \<Rightarrow> invoice \<Rightarrow> bool" where
  "update_applied rt t tr r =
     (InvoiceUpdate r (toISOString rt t) (count_or_0 r + 1) None \<in> set tr)"

definition dispatch_confirmed :: "event list \<Rightarrow> invoice \<Rightarrow> bool" where
  "dispatch_confirmed tr r = list_ex (\<lambda>ev. confirmed ev \<and> subject ev = Some r) tr"

text \<open>
  A row before and after a run: either the accepted update is in the trace, and then the
  row had fewer than three reminders, the provider confirmed a dispatch for it and the
  row now has one reminder more and the time of the run; or the row is as it was.
\<close>

definition row_after :: "runtime \<Rightarrow> int \<Rightarrow> event list \<Rightarrow> invoice \<Rightarrow> invoice \<Rightarrow> bool" where
  "row_after rt t tr r r' =
     (if update_applied rt t tr r
      then r' = reminded rt t r \<and> below_cap r \<and> dispatch_confirmed tr r
      else r' = r)"

text \<open>The update that follows a confirmed dispatch was issued with the count plus one.\<close>

definition update_issued :: "runtime \<Rightarrow> int \<Rightarrow> event list \<Rightarrow> invoice \<Rightarrow> bool" where
  "update_issued rt t tr r =
     list_ex (\<lambda>ev. case ev of
                 InvoiceUpdate iv s c err \<Rightarrow>
                   iv = r \<and> s = toISOString rt t \<and> c = count_or_0 r + 1
               | _ \<Rightarrow> False) tr"

section \<open>Properties of the iteration and of the loop\<close>

subsection \<open>One iteration, case by case\<close>

lemma process_invoice_cases:
  assumes "process_invoice rt t io iv st = (c, st')"
  obtains
    (skipped) "\<not> passes_guards rt t iv" "c = Normal" "st' = st"
  | (no_rcpt) "passes_guards rt t iv" "no_recipient (profile_reply io)"
      "c = Normal" "st' = log_event (ProfileQuery iv) st"
  | (compose_fail) err where "passes_guards rt t iv" "\<not> no_recipient (profile_reply io)"
      "amount iv = None" "c = Throws err" "st' = log_event (ProfileQuery iv) st"
  | (pending) mail where "passes_guards rt t iv" "\<not> no_recipient (profile_reply io)"
      "amount iv \<noteq> None" "resend_reply io = Pending" "c = Never"
      "st' = log_event (ResendPost iv mail Pending) (log_event (ProfileQuery iv) st)"
  | (failed) mail msg where "passes_guards rt t iv" "\<not> no_recipient (profile_reply io)"
      "amount iv \<noteq> None" "dispatch_failed (resend_reply io)" "c = Normal"
      "st' = log_event (ConsoleError msg)
         (log_event (ResendPost iv mail (resend_reply io)) (log_event (ProfileQuery iv) st))"
  | (sent) mail bt where "passes_guards rt t iv" "\<not> no_recipient (profile_reply io)"
      "amount iv \<noteq> None" "resend_reply io = Response True bt" "c = Normal"
      "st' = \<lparr>invoices_table =
                update_invoices (update_error io) (inv_id iv) (toISOString rt t)
                  (count_or_0 iv + 1) (invoices_table st),
             remindersSent = Suc (remindersSent st),
             trace = trace st @ [ProfileQuery iv, ResendPost iv mail (Response True bt),
               InvoiceUpdate iv (toISOString rt t) (count_or_0 iv + 1) (update_error io)]\<rparr>"
proof (cases "passes_guards rt t iv")
  case False
  with assms have "c = Normal" "st' = st"
    by (auto simp: process_invoice_def passes_guards_def split: if_splits)
  with False show ?thesis by (rule skipped)
next
  case pg: True
  show ?thesis
  proof (cases "no_recipient (profile_reply io)")
    case True
    with assms pg have "c = Normal" "st' = log_event (ProfileQuery iv) st"
      by (auto simp: process_invoice_def passes_guards_def Let_def)
    with pg True show ?thesis by (rule no_rcpt)
  next
    case nr: False
    then obtain u where u: "user (profile_reply io) = Some u"
      by (auto simp: no_recipient_def split: option.splits)
    show ?thesis
    proof (cases "amount iv")
      case None
      with assms pg nr u
      have "c = Throws (TypeError ''Cannot read properties of null (reading 'toFixed')'')"
        "st' = log_event (ProfileQuery iv) st"
        by (auto simp: process_invoice_def passes_guards_def Let_def compose_html_def)
      with pg nr None show ?thesis by (rule compose_fail)
    next
      case (Some a)
      then obtain html where h: "compose_html rt u iv = Inr html"
        by (simp add: compose_html_def)
      define mail where "mail = \<lparr>mail_to = or_empty (email u),
          mail_subject = ''Herinnering: openstaande factuur stockflow'', mail_html = html\<rparr>"
      from assms pg nr u h
      have ts: "try_send rt t io iv mail (log_event (ProfileQuery iv) st) = (c, st')"
        by (simp add: process_invoice_def passes_guards_def Let_def mail_def)
      have am: "amount iv \<noteq> None" using Some by simp
      show ?thesis
      proof (cases "resend_reply io")
        case (Rejected m)
        with ts have "c = Normal"
          "st' = log_event (ConsoleError (''Reminder e-mail error: '' @ m))
             (log_event (ResendPost iv mail (resend_reply io)) (log_event (ProfileQuery iv) st))"
          by (auto simp: try_send_def sendReminderEmail_def Let_def)
        moreover have "dispatch_failed (resend_reply io)"
          using Rejected by (simp add: dispatch_failed_def)
        ultimately show ?thesis using pg nr am by (intro failed)
      next
        case (Response ok bt)
        show ?thesis
        proof (cases ok)
          case True
          with ts Response have "c = Normal"
            "st' = \<lparr>invoices_table =
                update_invoices (update_error io) (inv_id iv) (toISOString rt t)
                  (count_or_0 iv + 1) (invoices_table st),
             remindersSent = Suc (remindersSent st),
             trace = trace st @ [ProfileQuery iv, ResendPost iv mail (Response True bt),
               InvoiceUpdate iv (toISOString rt t) (count_or_0 iv + 1) (update_error io)]\<rparr>"
            by (auto simp: try_send_def sendReminderEmail_def Let_def log_event_def)
          with pg nr am Response True show ?thesis by (intro sent) auto
        next
          case False
          with ts Response have "c = Normal"
            "st' = log_event
               (ConsoleError (''Reminder e-mail error: '' @ ''Resend error: '' @ bt))
               (log_event (ResendPost iv mail (resend_reply io)) (log_event (ProfileQuery iv) st))"
            by (auto simp: try_send_def sendReminderEmail_def Let_def)
          moreover have "dispatch_failed (resend_reply io)"
            using Response False by (simp add: dispatch_failed_def)
          ultimately show ?thesis using pg nr am by (intro failed)
        qed
      next
        case Pending
        with ts have "c = Never"
          "st' = log_event (ResendPost iv mail Pending) (log_event (ProfileQuery iv) st)"
          by (auto simp: try_send_def sendReminderEmail_def Let_def)
        with pg nr am Pending show ?thesis by (intro pending)
      qed
    qed
  qed
qed

subsection \<open>The loop\<close>

text \<open>A property that every iteration keeps holds when the loop stops, however it stops.\<close>

lemma loop_invariant:
  assumes "loop rt t ios k ivs st = (c, st')"
    and "P st"
    and "\<And>j iv s c' s'. iv \<in> set ivs \<Longrightarrow> P s \<Longrightarrow>
           process_invoice rt t (ios j) iv s = (c', s') \<Longrightarrow> P s'"
  shows "P st'"
  using assms
proof (induction ivs arbitrary: k st)
  case Nil
  then show ?case by simp
next
  case (Cons iv rest)
  obtain c1 s1 where step: "process_invoice rt t (ios k) iv st = (c1, s1)"
    by (cases "process_invoice rt t (ios k) iv st")
  have p1: "P s1"
    using Cons.prems(3)[of iv st k c1 s1] Cons.prems(2) step by simp
  show ?case
  proof (cases c1)
    case Normal
    with Cons.prems(1) step have run: "loop rt t ios (Suc k) rest s1 = (c, st')" by simp
    show ?thesis
    proof (rule Cons.IH[OF run p1])
      fix j x s c' s'
      assume "x \<in> set rest" "P s" "process_invoice rt t (ios j) x s = (c', s')"
      then show "P s'" using Cons.prems(3)[of x s j c' s'] by simp
    qed
  next
    case (Throws err)
    with Cons.prems(1) step have "st' = s1" by simp
    with p1 show ?thesis by simp
  next
    case Never
    with Cons.prems(1) step have "st' = s1" by simp
    with p1 show ?thesis by simp
  qed
qed

subsection \<open>What an iteration adds to the trace\<close>

lemma passes_guards_iff:
  "passes_guards rt t iv =
     (below_cap iv \<and> \<not> no_due_date iv \<and> (within_window rt t iv \<or> \<not> due_date_parses rt iv))"
  by (auto simp: passes_guards_def below_cap_def within_window_def no_due_date_def
      due_date_parses_def beyond_window_def cap_reached_def seven_days_def
      split: option.splits)

lemma qualifies_passes_guards:
  assumes "qualifies rt t iv"
  shows "passes_guards rt t iv"
  using assms
  by (auto simp: qualifies_def passes_guards_iff within_window_def no_due_date_def
      split: option.splits)

lemma step_keeps_trace:
  assumes "process_invoice rt t io iv st = (c, st')" and "ev \<in> set (trace st)"
  shows "ev \<in> set (trace st')"
  using assms(1)
  by (cases rule: process_invoice_cases) (use assms(2) in \<open>auto simp: log_event_def\<close>)

lemma step_new_events:
  assumes "process_invoice rt t io iv st = (c, st')"
    and "ev \<in> set (trace st')" and "ev \<notin> set (trace st)"
  shows "passes_guards rt t iv \<and> (subject ev = Some iv \<or> subject ev = None)"
  using assms(1)
  by (cases rule: process_invoice_cases) (use assms(2,3) in \<open>auto simp: log_event_def\<close>)

lemma loop_keeps_trace:
  assumes "loop rt t ios k ivs st = (c, st')" and "ev \<in> set (trace st)"
  shows "ev \<in> set (trace st')"
  by (rule loop_invariant[OF assms(1), where P = "\<lambda>s. ev \<in> set (trace s)"])
    (auto intro: assms(2) step_keeps_trace)

lemma loop_new_events:
  assumes "loop rt t ios k ivs st = (c, st')"
    and "ev \<in> set (trace st')" and "subject ev = Some iv"
  shows "ev \<in> set (trace st) \<or> (iv \<in> set ivs \<and> passes_guards rt t iv)"
proof -
  let ?P = "\<lambda>s. \<forall>x. x \<in> set (trace s) \<longrightarrow> subject x = Some iv \<longrightarrow>
                x \<in> set (trace st) \<or> (iv \<in> set ivs \<and> passes_guards rt t iv)"
  have "?P st'"
  proof (rule loop_invariant[OF assms(1), where P = ?P])
    show "?P st" by simp
  next
    fix j x s c' s'
    assume x: "x \<in> set ivs" and p: "?P s"
      and step: "process_invoice rt t (ios j) x s = (c', s')"
    show "?P s'"
    proof (intro allI impI)
      fix y
      assume y: "y \<in> set (trace s')" and sy: "subject y = Some iv"
      show "y \<in> set (trace st) \<or> (iv \<in> set ivs \<and> passes_guards rt t iv)"
      proof (cases "y \<in> set (trace s)")
        case True
        with p sy show ?thesis by blast
      next
        case False
        from step_new_events[OF step y False] sy x show ?thesis by auto
      qed
    qed
  qed
  with assms(2,3) show ?thesis by blast
qed

lemma step_queries_profile:
  assumes "passes_guards rt t iv"
  shows "ProfileQuery iv \<in> set (trace (snd (process_invoice rt t io iv st)))"
proof -
  obtain c st' where step: "process_invoice rt t io iv st = (c, st')"
    by (cases "process_invoice rt t io iv st")
  from step have "ProfileQuery iv \<in> set (trace st')"
    by (cases rule: process_invoice_cases) (use assms in \<open>auto simp: log_event_def\<close>)
  with step show ?thesis by simp
qed

lemma serve_new_events:
  assumes "ev \<in> set (trace (snd (serve rt req_method e tab)))" and "subject ev = Some iv"
  shows "iv \<in> set (select_open tab) \<and> passes_guards rt (now e) iv"
proof (cases "req_method \<noteq> ''OPTIONS'' \<and> select_error e = None")
  case False
  then have "trace (snd (serve rt req_method e tab)) = []"
    by (auto simp: serve_def start_def)
  with assms(1) show ?thesis by simp
next
  case True
  obtain c st where run:
    "loop rt (now e) (replies e) 0 (select_open tab) (start tab) = (c, st)"
    by (cases "loop rt (now e) (replies e) 0 (select_open tab) (start tab)")
  with True have "snd (serve rt req_method e tab) = st"
    by (cases c) (simp_all add: serve_def)
  with assms(1) have "ev \<in> set (trace st)" by simp
  from loop_new_events[OF run this assms(2)] show ?thesis
    by (simp add: start_def)
qed

text \<open>What \<open>serve\<close> leaves behind is what the loop leaves behind, or the start state.\<close>

lemma serve_state:
  obtains (no_loop) "snd (serve rt req_method e tab) = start tab"
  | (looped) c where
      "loop rt (now e) (replies e) 0 (select_open tab) (start tab) =
         (c, snd (serve rt req_method e tab))"
proof (cases "req_method \<noteq> ''OPTIONS'' \<and> select_error e = None")
  case False
  then have "snd (serve rt req_method e tab) = start tab"
    by (auto simp: serve_def)
  then show ?thesis by (rule no_loop)
next
  case True
  obtain c st where run:
    "loop rt (now e) (replies e) 0 (select_open tab) (start tab) = (c, st)"
    by (cases "loop rt (now e) (replies e) 0 (select_open tab) (start tab)")
  with True have "snd (serve rt req_method e tab) = st"
    by (cases c) (simp_all add: serve_def)
  with run show ?thesis by (intro looped[of c]) simp
qed

lemma loop_append:
  "loop rt t ios k (xs @ ys) st =
     (case loop rt t ios k xs st of
        (Normal, s) \<Rightarrow> loop rt t ios (k + length xs) ys s
      | (c, s) \<Rightarrow> (c, s))"
proof (induction xs arbitrary: k st)
  case Nil
  then show ?case by simp
next
  case (Cons x xs)
  show ?case
  proof (cases "process_invoice rt t (ios k) x st")
    case (Pair c1 s1)
    then show ?thesis using Cons.IH[of "Suc k" s1]
      by (cases c1) (simp_all split: prod.splits completion.splits)
  qed
qed

lemma loop_reaches_query:
  assumes "fst (loop rt t ios k before st) = Normal" and "passes_guards rt t iv"
  shows "ProfileQuery iv \<in> set (trace (snd (loop rt t ios k (before @ iv # rest) st)))"
proof -
  obtain s0 where pre: "loop rt t ios k before st = (Normal, s0)"
    using assms(1) by (cases "loop rt t ios k before st") simp
  let ?j = "k + length before"
  obtain c s1 where step: "process_invoice rt t (ios ?j) iv s0 = (c, s1)"
    by (cases "process_invoice rt t (ios ?j) iv s0")
  have q1: "ProfileQuery iv \<in> set (trace s1)"
    using step_queries_profile[OF assms(2), of "ios ?j" s0] step by simp
  have "ProfileQuery iv \<in> set (trace (snd (loop rt t ios ?j (iv # rest) s0)))"
  proof (cases c)
    case Normal
    obtain c2 s2 where tail: "loop rt t ios (Suc ?j) rest s1 = (c2, s2)"
      by (cases "loop rt t ios (Suc ?j) rest s1")
    from loop_keeps_trace[OF tail q1] step Normal tail show ?thesis by simp
  next
    case (Throws err)
    with step q1 show ?thesis by simp
  next
    case Never
    with step q1 show ?thesis by simp
  qed
  with pre show ?thesis by (simp add: loop_append)
qed

lemma loop_normal_queries:
  assumes "loop rt t ios k ivs st = (Normal, st')"
    and "iv \<in> set ivs" and "passes_guards rt t iv"
  shows "ProfileQuery iv \<in> set (trace st')"
  using assms(1,2)
proof (induction ivs arbitrary: k st)
  case Nil
  then show ?case by simp
next
  case (Cons x rest)
  obtain c s1 where step: "process_invoice rt t (ios k) x st = (c, s1)"
    by (cases "process_invoice rt t (ios k) x st")
  with Cons.prems(1) have c: "c = Normal"
    by (cases c) simp_all
  with Cons.prems(1) step have run: "loop rt t ios (Suc k) rest s1 = (Normal, st')"
    by simp
  show ?case
  proof (cases "iv = x")
    case True
    with step_queries_profile[OF assms(3), of "ios k" st] step
    have "ProfileQuery iv \<in> set (trace s1)" by simp
    then show ?thesis by (rule loop_keeps_trace[OF run])
  next
    case False
    with Cons.prems(2) have "iv \<in> set rest" by simp
    then show ?thesis by (rule Cons.IH[OF run])
  qed
qed

lemma serve_success_queries:
  assumes "fst (serve rt req_method e tab) = Some \<lparr>resp_status = 200, resp_body = BodySuccess n\<rparr>"
    and "iv \<in> set tab" and "qualifies rt (now e) iv"
  shows "ProfileQuery iv \<in> set (trace (snd (serve rt req_method e tab)))"
proof -
  from assms(1) have m: "req_method \<noteq> ''OPTIONS''" and se: "select_error e = None"
    by (auto simp: serve_def split: if_splits option.splits)
  obtain c st where run:
    "loop rt (now e) (replies e) 0 (select_open tab) (start tab) = (c, st)"
    by (cases "loop rt (now e) (replies e) 0 (select_open tab) (start tab)")
  with assms(1) m se have c: "c = Normal"
    by (cases c) (simp_all add: serve_def)
  from run m se c have st: "snd (serve rt req_method e tab) = st"
    by (simp add: serve_def)
  from assms(2,3) have "iv \<in> set (select_open tab)" "passes_guards rt (now e) iv"
    by (simp_all add: select_open_def qualifies_def qualifies_passes_guards)
  with run c have "ProfileQuery iv \<in> set (trace st)"
    by (auto intro: loop_normal_queries)
  with st show ?thesis by simp
qed

subsection \<open>How a run ends\<close>

lemma step_never:
  assumes "process_invoice rt t io iv st = (Never, st')"
  shows "resend_reply io = Pending"
  using assms by (cases rule: process_invoice_cases) auto

lemma step_throws:
  assumes "process_invoice rt t io iv st = (Throws err, st')"
  shows "amount iv = None"
  using assms by (cases rule: process_invoice_cases) auto

lemma loop_completes:
  assumes "\<forall>iv\<in>set ivs. amount iv \<noteq> None"
    and "\<forall>j. resend_reply (ios j) \<noteq> Pending"
  shows "fst (loop rt t ios k ivs st) = Normal"
  using assms(1)
proof (induction ivs arbitrary: k st)
  case Nil
  then show ?case by simp
next
  case (Cons iv rest)
  obtain c s1 where step: "process_invoice rt t (ios k) iv st = (c, s1)"
    by (cases "process_invoice rt t (ios k) iv st")
  show ?case
  proof (cases c)
    case Normal
    with step Cons show ?thesis by simp
  next
    case (Throws err)
    with step step_throws[of rt t "ios k" iv st err s1] Cons.prems show ?thesis by simp
  next
    case Never
    with step step_never[of rt t "ios k" iv st s1] assms(2) show ?thesis by simp
  qed
qed

lemma loop_never:
  assumes "\<forall>j. resend_reply (ios j) \<noteq> Pending"
  shows "fst (loop rt t ios k ivs st) \<noteq> Never"
proof (induction ivs arbitrary: k st)
  case Nil
  then show ?case by simp
next
  case (Cons iv rest)
  obtain c s1 where step: "process_invoice rt t (ios k) iv st = (c, s1)"
    by (cases "process_invoice rt t (ios k) iv st")
  show ?case
  proof (cases c)
    case Normal
    with step Cons show ?thesis by simp
  next
    case (Throws err)
    with step show ?thesis by simp
  next
    case Never
    with step step_never[of rt t "ios k" iv st s1] assms show ?thesis by simp
  qed
qed

lemma step_counts:
  assumes "process_invoice rt t io iv st = (c, st')"
  shows "remindersSent st' + length (filter confirmed (trace st)) =
         remindersSent st + length (filter confirmed (trace st'))"
  using assms
  by (cases rule: process_invoice_cases) (auto simp: log_event_def dispatch_failed_def
      split: fetch_result.splits)

lemma loop_counts:
  assumes "loop rt t ios k ivs st = (c, st')"
    and "remindersSent st = length (filter confirmed (trace st))"
  shows "remindersSent st' = length (filter confirmed (trace st'))"
proof (rule loop_invariant[OF assms(1),
      where P = "\<lambda>s. remindersSent s = length (filter confirmed (trace s))"])
  show "remindersSent st = length (filter confirmed (trace st))" by (rule assms(2))
next
  fix j iv s c' s'
  assume "remindersSent s = length (filter confirmed (trace s))"
    and "process_invoice rt t (ios j) iv s = (c', s')"
  then show "remindersSent s' = length (filter confirmed (trace s'))"
    using step_counts[of rt t "ios j" iv s c' s'] by simp
qed

subsection \<open>Rows and the reminder count\<close>

lemma within_cap_reminded:
  assumes "passes_guards rt t iv"
  shows "within_cap (r\<lparr>reminder_sent_at := s, reminder_count := Some (count_or_0 iv + 1)\<rparr>)"
  using assms
  by (auto simp: within_cap_def passes_guards_def cap_reached_def count_or_0_def
      split: option.splits)

lemma step_cap_ok:
  assumes "process_invoice rt t io iv st = (c, st')" and "cap_ok (invoices_table st)"
  shows "cap_ok (invoices_table st')"
  using assms(1)
proof (cases rule: process_invoice_cases)
  case (sent mail bt)
  from assms(2) within_cap_reminded[OF sent(1)]
  have "cap_ok (update_invoices (update_error io) (inv_id iv) (toISOString rt t)
      (count_or_0 iv + 1) (invoices_table st))"
    by (auto simp: cap_ok_def update_invoices_def list_all_iff)
  with sent show ?thesis by simp
qed (use assms(2) in \<open>simp_all add: log_event_def\<close>)

lemma serve_cap_ok:
  assumes "cap_ok tab"
  shows "cap_ok (invoices_table (snd (serve rt req_method e tab)))"
proof (cases rule: serve_state[of rt req_method e tab])
  case no_loop
  with assms show ?thesis by (simp add: start_def)
next
  case (looped c)
  show ?thesis
    by (rule loop_invariant[OF looped, where P = "\<lambda>s. cap_ok (invoices_table s)"])
      (use assms in \<open>auto simp: start_def intro: step_cap_ok\<close>)
qed

lemma runs_cap_ok:
  assumes "cap_ok tab"
  shows "cap_ok (runs rt inputs tab)"
  using assms
proof (induction inputs arbitrary: tab)
  case Nil
  then show ?case by simp
next
  case (Cons x later)
  obtain req_method e where x: "x = (req_method, e)" by (cases x)
  from Cons.prems have "cap_ok (invoices_table (snd (serve rt req_method e tab)))"
    by (rule serve_cap_ok)
  then show ?case using Cons.IH x by simp
qed

lemma failed_not_confirmed:
  assumes "dispatch_failed r"
  shows "\<not> confirmed (ResendPost iv m r)"
  using assms by (cases r) (simp_all add: dispatch_failed_def)

lemma reminded_inv_id [simp]: "inv_id (reminded rt t r) = inv_id r"
  by (simp add: reminded_def)

lemma same_id_same_row:
  assumes "distinct (map inv_id tab)" and "r \<in> set tab" and "iv \<in> set tab"
    and "inv_id r = inv_id iv"
  shows "r = iv"
  using assms by (auto simp: distinct_map dest: inj_onD)

lemma step_rows:
  assumes step: "process_invoice rt t io iv st = (c, st')"
    and ids: "distinct (map inv_id tab)"
    and iv_in: "iv \<in> set tab"
    and iv_fresh: "iv \<notin> set rest"
    and inv: "list_all2 (\<lambda>r r'. row_after rt t (trace st) r r' \<and>
                 (update_applied rt t (trace st) r \<longrightarrow> r \<notin> set (iv # rest)))
               tab (invoices_table st)"
  shows "list_all2 (\<lambda>r r'. row_after rt t (trace st') r r' \<and>
                 (update_applied rt t (trace st') r \<longrightarrow> r \<notin> set rest))
               tab (invoices_table st')"
proof -
  have unchanged: ?thesis
    if tab_eq: "invoices_table st' = invoices_table st"
      and app_eq: "\<And>r. update_applied rt t (trace st') r = update_applied rt t (trace st) r"
      and conf_mono: "\<And>r. dispatch_confirmed (trace st) r \<Longrightarrow> dispatch_confirmed (trace st') r"
  proof -
    have "list_all2 (\<lambda>r r'. row_after rt t (trace st') r r' \<and>
                 (update_applied rt t (trace st') r \<longrightarrow> r \<notin> set rest))
               tab (invoices_table st)"
      using inv
    proof (rule list.rel_mono_strong)
      fix r x
      assume "row_after rt t (trace st) r x \<and>
              (update_applied rt t (trace st) r \<longrightarrow> r \<notin> set (iv # rest))"
      then show "row_after rt t (trace st') r x \<and>
              (update_applied rt t (trace st') r \<longrightarrow> r \<notin> set rest)"
        using app_eq[of r] conf_mono[of r] by (auto simp: row_after_def)
    qed
    with tab_eq show ?thesis by simp
  qed
  from step show ?thesis
  proof (cases rule: process_invoice_cases)
    case skipped
    then show ?thesis using inv unchanged by simp
  next
    case no_rcpt
    show ?thesis
      by (rule unchanged)
        (simp_all add: no_rcpt log_event_def update_applied_def dispatch_confirmed_def)
  next
    case (compose_fail err)
    show ?thesis
      by (rule unchanged)
        (simp_all add: compose_fail log_event_def update_applied_def dispatch_confirmed_def)
  next
    case (pending mail)
    show ?thesis
      by (rule unchanged)
        (simp_all add: pending log_event_def update_applied_def dispatch_confirmed_def)
  next
    case (failed mail msg)
    show ?thesis
      by (rule unchanged)
        (simp_all add: failed log_event_def update_applied_def dispatch_confirmed_def)
  next
    case (sent mail bt)
    show ?thesis
    proof (cases "update_error io")
      case (Some err)
      show ?thesis
        by (rule unchanged)
          (simp_all add: sent Some update_invoices_def update_applied_def
            dispatch_confirmed_def)
    next
      case None
      let ?f = "\<lambda>x. if inv_id x = inv_id iv
                    then x\<lparr>reminder_sent_at := Some (toISOString rt t),
                           reminder_count := Some (count_or_0 iv + 1)\<rparr>
                    else x"
      have tab': "invoices_table st' = map ?f (invoices_table st)"
        by (simp add: sent None update_invoices_def)
      have tr': "trace st' = trace st @ [ProfileQuery iv, ResendPost iv mail (Response True bt),
               InvoiceUpdate iv (toISOString rt t) (count_or_0 iv + 1) None]"
        by (simp add: sent None)
      have bc: "below_cap iv" using sent(1) by (simp add: passes_guards_iff)
      have "list_all2 (\<lambda>r x. row_after rt t (trace st') r (?f x) \<and>
                 (update_applied rt t (trace st') r \<longrightarrow> r \<notin> set rest))
               tab (invoices_table st)"
        using inv
      proof (rule list.rel_mono_strong)
        fix r x
        assume r_in: "r \<in> set tab"
          and old: "row_after rt t (trace st) r x \<and>
              (update_applied rt t (trace st) r \<longrightarrow> r \<notin> set (iv # rest))"
        show "row_after rt t (trace st') r (?f x) \<and>
              (update_applied rt t (trace st') r \<longrightarrow> r \<notin> set rest)"
        proof (cases "r = iv")
          case True
          with old have "\<not> update_applied rt t (trace st) iv" by auto
          with old True have x: "x = iv" by (simp add: row_after_def)
          have "update_applied rt t (trace st') iv"
            by (simp add: update_applied_def tr')
          moreover have "dispatch_confirmed (trace st') iv"
            by (simp add: dispatch_confirmed_def tr')
          moreover have "?f iv = reminded rt t iv"
            by (simp add: reminded_def)
          ultimately show ?thesis
            using True x bc iv_fresh by (simp add: row_after_def)
        next
          case False
          with same_id_same_row[OF ids r_in iv_in] have id_ne: "inv_id r \<noteq> inv_id iv"
            by blast
          have app: "update_applied rt t (trace st') r = update_applied rt t (trace st) r"
            using False by (auto simp: update_applied_def tr')
          have conf: "dispatch_confirmed (trace st) r \<Longrightarrow> dispatch_confirmed (trace st') r"
            by (simp add: dispatch_confirmed_def tr')
          from old have "x = r \<or> x = reminded rt t r"
            by (auto simp: row_after_def split: if_splits)
          with id_ne have "inv_id x \<noteq> inv_id iv" by auto
          then have "?f x = x" by simp
          with old app conf show ?thesis
            by (auto simp: row_after_def)
        qed
      qed
      then show ?thesis
        by (simp add: tab' list_all2_map2)
    qed
  qed
qed

lemma loop_rows:
  assumes "loop rt t ios k ivs st = (c, st')"
    and "distinct (map inv_id tab)" and "set ivs \<subseteq> set tab" and "distinct ivs"
    and "list_all2 (\<lambda>r r'. row_after rt t (trace st) r r' \<and>
                 (update_applied rt t (trace st) r \<longrightarrow> r \<notin> set ivs))
               tab (invoices_table st)"
  shows "list_all2 (\<lambda>r r'. row_after rt t (trace st') r r') tab (invoices_table st')"
  using assms(1,3,4,5)
proof (induction ivs arbitrary: k st)
  case Nil
  then show ?case by simp
next
  case (Cons iv rest)
  obtain c1 s1 where step: "process_invoice rt t (ios k) iv st = (c1, s1)"
    by (cases "process_invoice rt t (ios k) iv st")
  from Cons.prems have iv_in: "iv \<in> set tab" and iv_fresh: "iv \<notin> set rest"
    and sub: "set rest \<subseteq> set tab" and dist: "distinct rest"
    by simp_all
  note rows = step_rows[OF step assms(2) iv_in iv_fresh Cons.prems(4)]
  show ?case
  proof (cases c1)
    case Normal
    with Cons.prems(1) step have run: "loop rt t ios (Suc k) rest s1 = (c, st')" by simp
    show ?thesis by (rule Cons.IH[OF run sub dist rows])
  next
    case (Throws err)
    with Cons.prems(1) step have "st' = s1" by simp
    with rows show ?thesis by (auto elim: list.rel_mono_strong)
  next
    case Never
    with Cons.prems(1) step have "st' = s1" by simp
    with rows show ?thesis by (auto elim: list.rel_mono_strong)
  qed
qed

lemma serve_rows:
  assumes "distinct (map inv_id tab)"
  shows "list_all2 (row_after rt (now e) (trace (snd (serve rt req_method e tab))))
           tab (invoices_table (snd (serve rt req_method e tab)))"
proof (cases rule: serve_state[of rt req_method e tab])
  case no_loop
  then show ?thesis
    by (simp add: start_def row_after_def update_applied_def list.rel_eq[unfolded fun_eq_iff]
        list_all2_same)
next
  case (looped c)
  have d: "distinct tab" using assms by (rule distinct_map[THEN iffD1, THEN conjunct1])
  show ?thesis
  proof (rule loop_rows[OF looped assms])
    show "set (select_open tab) \<subseteq> set tab" by (auto simp: select_open_def)
    show "distinct (select_open tab)" using d by (simp add: select_open_def)
    show "list_all2 (\<lambda>r r'. row_after rt (now e) (trace (start tab)) r r' \<and>
            (update_applied rt (now e) (trace (start tab)) r \<longrightarrow> r \<notin> set (select_open tab)))
          tab (invoices_table (start tab))"
      by (simp add: start_def row_after_def update_applied_def list_all2_same)
  qed
qed

lemma step_update_issued:
  assumes "process_invoice rt t io iv st = (c, st')"
    and "\<forall>r. dispatch_confirmed (trace st) r \<longrightarrow> update_issued rt t (trace st) r"
  shows "\<forall>r. dispatch_confirmed (trace st') r \<longrightarrow> update_issued rt t (trace st') r"
  using assms(1)
  by (cases rule: process_invoice_cases)
    (use assms(2) in \<open>auto simp: log_event_def dispatch_confirmed_def update_issued_def
       dest: failed_not_confirmed\<close>)

lemma serve_update_issued:
  assumes "dispatch_confirmed (trace (snd (serve rt req_method e tab))) r"
  shows "update_issued rt (now e) (trace (snd (serve rt req_method e tab))) r"
proof (cases rule: serve_state[of rt req_method e tab])
  case no_loop
  with assms show ?thesis by (simp add: start_def dispatch_confirmed_def)
next
  case (looped c)
  have "\<forall>r. dispatch_confirmed (trace (snd (serve rt req_method e tab))) r \<longrightarrow>
            update_issued rt (now e) (trace (snd (serve rt req_method e tab))) r"
    by (rule loop_invariant[OF looped,
        where P = "\<lambda>s. \<forall>r. dispatch_confirmed (trace s) r \<longrightarrow>
                          update_issued rt (now e) (trace s) r"])
      (auto simp: start_def dispatch_confirmed_def intro: step_update_issued[rule_format])
  with assms show ?thesis by blast
qed

section \<open>The claims\<close>

subsection \<open>An invoice without an amount\<close>

text \<open>
  C1. The message is composed before the \<^verbatim>\<open>try\<close> block, so the TypeError of
  \<^verbatim>\<open>inv.amount.toFixed(2)\<close> on a null amount is not caught inside the loop. With two
  open invoices that are due, the first without an amount, the handler answers with
  status 500 after the profile query of the first; the second invoice is not processed.
\<close>

theorem missing_amount_aborts_run:
  "serve sample_runtime ''POST'' world_ok [invoice_no_amount, invoice_a] =
     (Some \<lparr>resp_status = 500,
            resp_body = BodyError ''Cannot read properties of null (reading 'toFixed')''\<rparr>,
      \<lparr>invoices_table = [invoice_no_amount, invoice_a], remindersSent = 0,
       trace = [ProfileQuery invoice_no_amount]\<rparr>)"
  by code_simp

subsection \<open>The reminder count\<close>

text \<open>
  C2, as the code has it. The cap is an invariant of the table: when no row has more than
  three reminders, the same holds after any number of invocations one after the other.
  Within one invocation a reminder is posted only for an invoice with fewer than three
  reminders; every dispatch the provider confirmed is followed by the update that writes
  the count plus one; and, the id being the key of the table, every row is afterwards
  either as it was, or the data store accepted that update and the row has exactly one
  reminder more than before, the time of the run as \<^verbatim>\<open>reminder_sent_at\<close>, and a
  confirmed dispatch in this run. So the count goes up by exactly one for a confirmed
  dispatch whose update the data store accepts, it stays as it was when the data store
  refuses the update, and nothing else changes a row.
\<close>

theorem reminder_count_stays_within_cap:
  "(cap_ok tab \<longrightarrow> cap_ok (runs rt inputs tab)) \<and>
   (ResendPost iv mail res \<in> set (trace (snd (serve rt req_method e tab))) \<longrightarrow> below_cap iv) \<and>
   (dispatch_confirmed (trace (snd (serve rt req_method e tab))) iv \<longrightarrow>
      update_issued rt (now e) (trace (snd (serve rt req_method e tab))) iv) \<and>
   (distinct (map inv_id tab) \<longrightarrow>
      list_all2 (row_after rt (now e) (trace (snd (serve rt req_method e tab))))
        tab (invoices_table (snd (serve rt req_method e tab))))"
proof (intro conjI impI)
  assume "cap_ok tab"
  then show "cap_ok (runs rt inputs tab)" by (rule runs_cap_ok)
next
  assume "ResendPost iv mail res \<in> set (trace (snd (serve rt req_method e tab)))"
  from serve_new_events[OF this, of iv] show "below_cap iv"
    by (simp add: passes_guards_iff)
next
  assume "dispatch_confirmed (trace (snd (serve rt req_method e tab))) iv"
  then show "update_issued rt (now e) (trace (snd (serve rt req_method e tab))) iv"
    by (rule serve_update_issued)
next
  assume "distinct (map inv_id tab)"
  then show "list_all2 (row_after rt (now e) (trace (snd (serve rt req_method e tab))))
        tab (invoices_table (snd (serve rt req_method e tab)))"
    by (rule serve_rows)
qed

theorem reminder_count_stays_within_cap_witness:
  "cap_ok [invoice_a, invoice_b] \<and>
   cap_ok (runs sample_runtime
     [(''POST'', world_ok), (''POST'', world_ok), (''POST'', world_ok), (''POST'', world_ok)]
     [invoice_a, invoice_b]) \<and>
   map reminder_count (runs sample_runtime
     [(''POST'', world_ok), (''POST'', world_ok), (''POST'', world_ok), (''POST'', world_ok)]
     [invoice_a, invoice_b]) = [Some 3, Some 3] \<and>
   ResendPost invoice_a (mail_for sample_runtime ann invoice_a) (Response True ''{}'')
     \<in> set (trace (snd (serve sample_runtime ''POST'' world_ok [invoice_a, invoice_b]))) \<and>
   below_cap invoice_a \<and>
   dispatch_confirmed (trace (snd (serve sample_runtime ''POST'' world_ok
     [invoice_a, invoice_b]))) invoice_a \<and>
   update_issued sample_runtime sample_now (trace (snd (serve sample_runtime ''POST'' world_ok
     [invoice_a, invoice_b]))) invoice_a \<and>
   distinct (map inv_id [invoice_a, invoice_b]) \<and>
   list_all2 (row_after sample_runtime sample_now
       (trace (snd (serve sample_runtime ''POST'' world_ok [invoice_a, invoice_b]))))
     [invoice_a, invoice_b]
     (invoices_table (snd (serve sample_runtime ''POST'' world_ok [invoice_a, invoice_b]))) \<and>
   invoices_table (snd (serve sample_runtime ''POST'' world_ok [invoice_a, invoice_b])) =
     [reminded sample_runtime sample_now invoice_a, reminded sample_runtime sample_now invoice_b]"
proof -
  have h1: "cap_ok [invoice_a, invoice_b]" by code_simp
  have h2: "ResendPost invoice_a (mail_for sample_runtime ann invoice_a) (Response True ''{}'')
     \<in> set (trace (snd (serve sample_runtime ''POST'' world_ok [invoice_a, invoice_b])))"
    by code_simp
  have h3: "dispatch_confirmed (trace (snd (serve sample_runtime ''POST'' world_ok
     [invoice_a, invoice_b]))) invoice_a"
    by code_simp
  have h4: "distinct (map inv_id [invoice_a, invoice_b])"
    by (simp add: invoice_a_def invoice_b_def)
  have v1: "map reminder_count (runs sample_runtime
     [(''POST'', world_ok), (''POST'', world_ok), (''POST'', world_ok), (''POST'', world_ok)]
     [invoice_a, invoice_b]) = [Some 3, Some 3]"
    by code_simp
  have v2: "invoices_table (snd (serve sample_runtime ''POST'' world_ok
      [invoice_a, invoice_b])) =
     [reminded sample_runtime sample_now invoice_a, reminded sample_runtime sample_now invoice_b]"
    by code_simp
  have n: "now world_ok = sample_now" by (simp add: world_ok_def world_def)
  from reminder_count_stays_within_cap[of "[invoice_a, invoice_b]" sample_runtime
      "[(''POST'', world_ok), (''POST'', world_ok), (''POST'', world_ok), (''POST'', world_ok)]"
      invoice_a "mail_for sample_runtime ann invoice_a" "Response True ''{}''"
      "''POST''" world_ok]
    h1 h2 h3 h4 v1 v2 n
  show ?thesis by simp
qed

text \<open>
  When the data store refuses the update, the provider has confirmed the dispatch and the
  count is not increased: after five such runs, each with a confirmed dispatch, the row
  still has no reminder counted.
\<close>

theorem confirmed_dispatch_without_increment:
  "reminder_count invoice_a = Some 0 \<and>
   dispatch_confirmed (trace (snd (serve sample_runtime ''POST'' world_update_fails
     [invoice_a]))) invoice_a \<and>
   invoices_table (snd (serve sample_runtime ''POST'' world_update_fails [invoice_a])) =
     [invoice_a] \<and>
   map reminder_count (runs sample_runtime
     [(''POST'', world_update_fails), (''POST'', world_update_fails),
      (''POST'', world_update_fails), (''POST'', world_update_fails),
      (''POST'', world_update_fails)]
     [invoice_a]) = [Some 0]"
  by code_simp

subsection \<open>Selection\<close>




text \<open>
  C4, as the code has it. An invoice of the table with status \<^verbatim>\<open>open\<close>, a reminder
  count below three and a due date that is past or at most seven days ahead is in the
  batch that the bulk read returns, and the three guards let it through: its iteration
  issues the profile query for it (the recipient-resolution step), in any state and
  whatever the outside world answers. The loop comes to it when the iterations of the
  invoices before it in the batch have completed; then, in the loop and in the handler
  after a successful bulk read, the profile query for it is issued. In particular, when a
  run ends with the success result, the profile query was issued for every such invoice
  of the table.
\<close>

theorem qualifying_invoice_reaches_lookup:
  assumes "qualifies rt t iv"
  shows "(iv \<in> set tab \<longrightarrow> iv \<in> set (select_open tab)) \<and>
         ProfileQuery iv \<in> set (trace (snd (process_invoice rt t io iv st))) \<and>
         (fst (loop rt t ios k before st) = Normal \<longrightarrow>
            ProfileQuery iv \<in> set (trace (snd (loop rt t ios k (before @ iv # rest) st)))) \<and>
         (t = now e \<and> req_method \<noteq> ''OPTIONS'' \<and> select_error e = None \<and>
          select_open tab = before @ iv # rest \<and>
          fst (loop rt (now e) (replies e) 0 before (start tab)) = Normal \<longrightarrow>
            ProfileQuery iv \<in> set (trace (snd (serve rt req_method e tab)))) \<and>
         (t = now e \<and> iv \<in> set tab \<and>
          fst (serve rt req_method e tab) =
            Some \<lparr>resp_status = 200, resp_body = BodySuccess n\<rparr> \<longrightarrow>
            ProfileQuery iv \<in> set (trace (snd (serve rt req_method e tab))))"
proof -
  from assms have open_status: "status iv = ''open''"
    by (simp add: qualifies_def)
  from assms have pg: "passes_guards rt t iv"
    by (rule qualifies_passes_guards)
  have batch: "iv \<in> set tab \<longrightarrow> iv \<in> set (select_open tab)"
    using open_status by (simp add: select_open_def)
  have step: "ProfileQuery iv \<in> set (trace (snd (process_invoice rt t io iv st)))"
    by (rule step_queries_profile[OF pg])
  have in_loop: "ProfileQuery iv \<in> set (trace (snd (loop rt t ios k (before @ iv # rest) st)))"
    if "fst (loop rt t ios k before st) = Normal"
    using that pg by (rule loop_reaches_query)
  have in_serve: "ProfileQuery iv \<in> set (trace (snd (serve rt req_method e tab)))"
    if h: "t = now e \<and> req_method \<noteq> ''OPTIONS'' \<and> select_error e = None \<and>
          select_open tab = before @ iv # rest \<and>
          fst (loop rt (now e) (replies e) 0 before (start tab)) = Normal"
  proof -
    from h pg have
      "ProfileQuery iv \<in> set (trace (snd (loop rt (now e) (replies e) 0
          (before @ iv # rest) (start tab))))"
      by (auto intro: loop_reaches_query)
    moreover from h have "snd (serve rt req_method e tab) =
        snd (loop rt (now e) (replies e) 0 (before @ iv # rest) (start tab))"
      by (auto simp: serve_def split: prod.splits completion.splits)
    ultimately show ?thesis by simp
  qed
  have on_success: "ProfileQuery iv \<in> set (trace (snd (serve rt req_method e tab)))"
    if "t = now e \<and> iv \<in> set tab \<and>
        fst (serve rt req_method e tab) = Some \<lparr>resp_status = 200, resp_body = BodySuccess n\<rparr>"
    using that assms by (auto intro: serve_success_queries)
  from batch step in_loop in_serve on_success show ?thesis by blast
qed

theorem qualifying_invoice_reaches_lookup_witness:
  "qualifies sample_runtime sample_now invoice_b \<and>
   invoice_b \<in> set (select_open [invoice_a, invoice_b]) \<and>
   ProfileQuery invoice_b \<in> set (trace (snd (process_invoice sample_runtime sample_now
      io_refused invoice_b (start [invoice_a, invoice_b])))) \<and>
   fst (loop sample_runtime sample_now (replies world_refused) 0 [invoice_a]
      (start [invoice_a, invoice_b])) = Normal \<and>
   ProfileQuery invoice_b \<in> set (trace (snd (loop sample_runtime sample_now
      (replies world_refused) 0 ([invoice_a] @ invoice_b # [invoice_no_amount])
      (start [invoice_a, invoice_b])))) \<and>
   select_error world_refused = None \<and>
   select_open [invoice_a, invoice_b] = [invoice_a] @ invoice_b # [] \<and>
   fst (serve sample_runtime ''POST'' world_refused [invoice_a, invoice_b]) =
     Some \<lparr>resp_status = 200, resp_body = BodySuccess 0\<rparr> \<and>
   ProfileQuery invoice_b \<in> set (trace (snd (serve sample_runtime ''POST'' world_refused
      [invoice_a, invoice_b])))"
proof -
  have q: "qualifies sample_runtime sample_now invoice_b"
    by (simp add: qualifies_def below_cap_def within_window_def invoice_b_def
        sample_runtime_def sample_now_def seven_days_def)
  have n: "sample_now = now world_refused"
    by (simp add: world_refused_def world_def)
  have se: "select_error world_refused = None"
    by (simp add: world_refused_def world_def)
  have so: "select_open [invoice_a, invoice_b] = [invoice_a] @ invoice_b # []"
    by (simp add: select_open_def invoice_a_def invoice_b_def)
  have pre: "fst (loop sample_runtime sample_now (replies world_refused) 0 [invoice_a]
      (start [invoice_a, invoice_b])) = Normal"
    by code_simp
  have r: "fst (serve sample_runtime ''POST'' world_refused [invoice_a, invoice_b]) =
     Some \<lparr>resp_status = 200, resp_body = BodySuccess 0\<rparr>"
    by code_simp
  from qualifying_invoice_reaches_lookup[OF q, of "[invoice_a, invoice_b]" io_refused
      "start [invoice_a, invoice_b]" "replies world_refused" 0 "[invoice_a]"
      "[invoice_no_amount]" world_refused "''POST''" 0]
  have a: "invoice_b \<in> set (select_open [invoice_a, invoice_b])"
    and b: "ProfileQuery invoice_b \<in> set (trace (snd (process_invoice sample_runtime
      sample_now io_refused invoice_b (start [invoice_a, invoice_b]))))"
    and c: "ProfileQuery invoice_b \<in> set (trace (snd (loop sample_runtime sample_now
      (replies world_refused) 0 ([invoice_a] @ invoice_b # [invoice_no_amount])
      (start [invoice_a, invoice_b]))))"
    using pre by simp_all
  from qualifying_invoice_reaches_lookup[OF q, of "[invoice_a, invoice_b]" io_refused
      "start [invoice_a, invoice_b]" "replies world_refused" 0 "[invoice_a]"
      "[]" world_refused "''POST''" 0]
  have d: "ProfileQuery invoice_b \<in> set (trace (snd (serve sample_runtime ''POST''
      world_refused [invoice_a, invoice_b])))"
    using n se so pre by simp
  from q a b c d pre se so r show ?thesis by simp
qed

text \<open>
  A qualifying invoice behind an invoice without an amount, or behind one whose POST to
  the provider never settles, is not looked up: the run is over before the loop comes to
  it.
\<close>

theorem qualifying_invoice_not_reached:
  "qualifies sample_runtime sample_now invoice_b \<and>
   select_error world_ok = None \<and>
   invoice_b \<in> set (select_open [invoice_no_amount, invoice_b]) \<and>
   ProfileQuery invoice_b
     \<notin> set (trace (snd (serve sample_runtime ''POST'' world_ok
          [invoice_no_amount, invoice_b]))) \<and>
   select_error world_pending = None \<and>
   ProfileQuery invoice_b
     \<notin> set (trace (snd (serve sample_runtime ''POST'' world_pending
          [invoice_a, invoice_b])))"
  by code_simp

subsection \<open>A failed dispatch\<close>



subsection \<open>A failed bulk read\<close>

text \<open>
  C6. When the bulk read of the open invoices fails, the run is over: the handler answers
  with status 500 and the message of the error as the body, the invoice table is as it
  was, and the trace is empty, so no profile was looked up, no reminder was dispatched and
  no row was written.
\<close>

theorem bulk_read_failure_aborts_run:
  assumes "req_method \<noteq> ''OPTIONS''" and "select_error e = Some err"
  shows "serve rt req_method e tab =
           (Some \<lparr>resp_status = 500, resp_body = BodyError (message err)\<rparr>,
            \<lparr>invoices_table = tab, remindersSent = 0, trace = []\<rparr>)"
  using assms by (simp add: serve_def start_def)

theorem bulk_read_failure_aborts_run_witness:
  "serve sample_runtime ''POST'' world_read_fails [invoice_a, invoice_b] =
     (Some \<lparr>resp_status = 500, resp_body = BodyError ''permission denied''\<rparr>,
      \<lparr>invoices_table = [invoice_a, invoice_b], remindersSent = 0, trace = []\<rparr>)"
  using bulk_read_failure_aborts_run[of "''POST''" world_read_fails
      "PostgrestError ''permission denied''" sample_runtime "[invoice_a, invoice_b]"]
  by (simp add: world_read_fails_def)

subsection \<open>A provider that does not answer\<close>

text \<open>
  C7, as the code has it. The call to the provider carries no timeout. When every call to
  the provider settles, the handler answers. When an iteration posts a reminder and the
  call never settles, the iteration never completes: no row is written, the counter keeps
  its value, and the loop stops there without going on to the next invoice.
\<close>

theorem dispatch_without_timeout:
  "((\<forall>j. resend_reply (replies e j) \<noteq> Pending) \<longrightarrow> fst (serve rt req_method e tab) \<noteq> None) \<and>
   (process_invoice rt t (ios k) iv st = (c, st') \<and>
    ResendPost iv mail Pending \<in> set (drop (length (trace st)) (trace st')) \<longrightarrow>
      c = Never \<and> invoices_table st' = invoices_table st \<and>
      remindersSent st' = remindersSent st \<and>
      loop rt t ios k (iv # rest) st = (Never, st'))"
proof (intro conjI impI)
  assume settles: "\<forall>j. resend_reply (replies e j) \<noteq> Pending"
  obtain c0 s0 where run:
    "loop rt (now e) (replies e) 0 (select_open tab) (start tab) = (c0, s0)"
    by (cases "loop rt (now e) (replies e) 0 (select_open tab) (start tab)")
  from loop_never[OF settles, of rt "now e" 0 "select_open tab" "start tab"] run
  have "c0 \<noteq> Never" by simp
  with run show "fst (serve rt req_method e tab) \<noteq> None"
    by (cases c0) (auto simp: serve_def split: option.splits)
next
  assume a: "process_invoice rt t (ios k) iv st = (c, st') \<and>
    ResendPost iv mail Pending \<in> set (drop (length (trace st)) (trace st'))"
  then have step: "process_invoice rt t (ios k) iv st = (c, st')"
    and new: "ResendPost iv mail Pending \<in> set (drop (length (trace st)) (trace st'))"
    by simp_all
  from step have "c = Never \<and> invoices_table st' = invoices_table st \<and>
      remindersSent st' = remindersSent st"
    by (cases rule: process_invoice_cases)
      (use new in \<open>auto simp: log_event_def dispatch_failed_def\<close>)
  with step show "c = Never" "invoices_table st' = invoices_table st"
    "remindersSent st' = remindersSent st"
    "loop rt t ios k (iv # rest) st = (Never, st')"
    by simp_all
qed

theorem dispatch_without_timeout_witness:
  "(\<forall>j. resend_reply (replies world_refused j) \<noteq> Pending) \<and>
   fst (serve sample_runtime ''POST'' world_refused [invoice_a, invoice_b]) \<noteq> None \<and>
   process_invoice sample_runtime sample_now io_pending invoice_a (start [invoice_a, invoice_b]) =
     (Never,
      \<lparr>invoices_table = [invoice_a, invoice_b], remindersSent = 0,
       trace = [ProfileQuery invoice_a,
                ResendPost invoice_a (mail_for sample_runtime ann invoice_a) Pending]\<rparr>) \<and>
   loop sample_runtime sample_now (\<lambda>k. io_pending) 0 [invoice_a, invoice_b]
       (start [invoice_a, invoice_b]) =
     (Never,
      \<lparr>invoices_table = [invoice_a, invoice_b], remindersSent = 0,
       trace = [ProfileQuery invoice_a,
                ResendPost invoice_a (mail_for sample_runtime ann invoice_a) Pending]\<rparr>)"
proof -
  have settles: "\<forall>j. resend_reply (replies world_refused j) \<noteq> Pending"
    by (simp add: world_refused_def world_def io_refused_def)
  have step: "process_invoice sample_runtime sample_now io_pending invoice_a
      (start [invoice_a, invoice_b]) =
     (Never,
      \<lparr>invoices_table = [invoice_a, invoice_b], remindersSent = 0,
       trace = [ProfileQuery invoice_a,
                ResendPost invoice_a (mail_for sample_runtime ann invoice_a) Pending]\<rparr>)"
    by code_simp
  have new: "ResendPost invoice_a (mail_for sample_runtime ann invoice_a) Pending
    \<in> set (drop (length (trace (start [invoice_a, invoice_b])))
         (trace \<lparr>invoices_table = [invoice_a, invoice_b], remindersSent = 0,
            trace = [ProfileQuery invoice_a,
                ResendPost invoice_a (mail_for sample_runtime ann invoice_a) Pending]\<rparr>))"
    by (simp add: start_def)
  from dispatch_without_timeout[of world_refused sample_runtime "''POST''"
      "[invoice_a, invoice_b]" sample_now "\<lambda>k. io_pending" 0 invoice_a
      "start [invoice_a, invoice_b]" Never
      "\<lparr>invoices_table = [invoice_a, invoice_b], remindersSent = 0,
       trace = [ProfileQuery invoice_a,
                ResendPost invoice_a (mail_for sample_runtime ann invoice_a) Pending]\<rparr>"
      "mail_for sample_runtime ann invoice_a" "[invoice_b]"]
    settles step new
  show ?thesis by simp
qed

text \<open>
  With a provider that never answers the handler never answers either, and the second
  invoice is not reached.
\<close>

theorem pending_provider_blocks_run:
  "serve sample_runtime ''POST'' world_pending [invoice_a, invoice_b] =
     (None,
      \<lparr>invoices_table = [invoice_a, invoice_b], remindersSent = 0,
       trace = [ProfileQuery invoice_a,
                ResendPost invoice_a (mail_for sample_runtime ann invoice_a) Pending]\<rparr>)"
  by code_simp

subsection \<open>A failed update\<close>

text \<open>
  C8. The result of the update is not looked at. When the provider confirms the dispatch
  and the data store then refuses the update, nothing is written to the console, the row
  keeps its old reminder count, the reminder is still counted, and the response is the
  one of a run in which the update went through.
\<close>

theorem failed_update_is_silent:
  "serve sample_runtime ''POST'' world_update_fails [invoice_a] =
     (Some \<lparr>resp_status = 200, resp_body = BodySuccess 1\<rparr>,
      \<lparr>invoices_table = [invoice_a], remindersSent = 1,
       trace = [ProfileQuery invoice_a,
                ResendPost invoice_a (mail_for sample_runtime ann invoice_a)
                  (Response True ''{}''),
                InvoiceUpdate invoice_a ''2024-05-01T08:00:00.000Z'' 1
                  (Some (PostgrestError ''connection lost''))]\<rparr>) \<and>
   fst (serve sample_runtime ''POST'' world_ok [invoice_a]) =
     Some \<lparr>resp_status = 200, resp_body = BodySuccess 1\<rparr>"
  by code_simp

subsection \<open>The result of a run\<close>

text \<open>
  C9, as the code has it. When the bulk read succeeds, every open invoice has an amount
  and every call to the provider settles, the handler answers with status 200 and the
  body \<^verbatim>\<open>{ success: true, remindersSent: n }\<close>, where \<open>n\<close> is the number of
  dispatches of this run that the provider confirmed.
\<close>

theorem completed_run_reports_confirmed_dispatches:
  assumes "req_method \<noteq> ''OPTIONS''" and "select_error e = None"
    and "\<forall>iv\<in>set tab. status iv = ''open'' \<longrightarrow> amount iv \<noteq> None"
    and "\<forall>k. resend_reply (replies e k) \<noteq> Pending"
  shows "\<exists>st. serve rt req_method e tab =
           (Some \<lparr>resp_status = 200,
                  resp_body = BodySuccess (length (filter confirmed (trace st)))\<rparr>, st)"
proof -
  obtain c st where run:
    "loop rt (now e) (replies e) 0 (select_open tab) (start tab) = (c, st)"
    by (cases "loop rt (now e) (replies e) 0 (select_open tab) (start tab)")
  from assms(3) have "\<forall>iv\<in>set (select_open tab). amount iv \<noteq> None"
    by (simp add: select_open_def)
  from loop_completes[OF this assms(4), of rt "now e" 0 "start tab"] run
  have c: "c = Normal" by simp
  have "remindersSent st = length (filter confirmed (trace st))"
    by (rule loop_counts[OF run]) (simp add: start_def)
  with assms(1,2) run c show ?thesis by (simp add: serve_def)
qed

theorem completed_run_reports_confirmed_dispatches_witness:
  "select_error world_ok = None \<and>
   amount invoice_a \<noteq> None \<and> amount invoice_b \<noteq> None \<and>
   (\<forall>k. resend_reply (replies world_ok k) \<noteq> Pending) \<and>
   fst (serve sample_runtime ''POST'' world_ok [invoice_a, invoice_b]) =
     Some \<lparr>resp_status = 200, resp_body = BodySuccess 2\<rparr>"
proof -
  have h1: "''POST'' \<noteq> ''OPTIONS''" by simp
  have h2: "select_error world_ok = None"
    by (simp add: world_ok_def world_def)
  have h3: "\<forall>iv\<in>set [invoice_a, invoice_b]. status iv = ''open'' \<longrightarrow> amount iv \<noteq> None"
    by (simp add: invoice_a_def invoice_b_def del: not_None_eq)
  have h4: "\<forall>k. resend_reply (replies world_ok k) \<noteq> Pending"
    by (simp add: world_ok_def world_def io_ok_def)
  have val: "fst (serve sample_runtime ''POST'' world_ok [invoice_a, invoice_b]) =
     Some \<lparr>resp_status = 200, resp_body = BodySuccess 2\<rparr>"
    by code_simp
  from completed_run_reports_confirmed_dispatches[OF h1 h2 h3 h4, of sample_runtime]
  obtain st where "serve sample_runtime ''POST'' world_ok [invoice_a, invoice_b] =
           (Some \<lparr>resp_status = 200,
                  resp_body = BodySuccess (length (filter confirmed (trace st)))\<rparr>, st)"
    by blast
  moreover have "amount invoice_a \<noteq> None" "amount invoice_b \<noteq> None"
    by (simp_all add: invoice_a_def invoice_b_def del: not_None_eq)
  ultimately show ?thesis using h2 h4 val by (simp del: not_None_eq)
qed

text \<open>
  After a successful bulk read the answer is not always the success result. In the first
  run the first invoice is reminded and recorded, the second has no amount, and the
  handler answers with status 500. In the second run the provider never answers, and
  neither does the handler.
\<close>

theorem successful_read_without_success_result:
  "select_error world_ok = None \<and>
   serve sample_runtime ''POST'' world_ok [invoice_a, invoice_no_amount] =
     (Some \<lparr>resp_status = 500,
            resp_body = BodyError ''Cannot read properties of null (reading 'toFixed')''\<rparr>,
      \<lparr>invoices_table = [reminded sample_runtime sample_now invoice_a, invoice_no_amount],
       remindersSent = 1,
       trace = [ProfileQuery invoice_a,
                ResendPost invoice_a (mail_for sample_runtime ann invoice_a)
                  (Response True ''{}''),
                InvoiceUpdate invoice_a ''2024-05-01T08:00:00.000Z'' 1 None,
                ProfileQuery invoice_no_amount]\<rparr>) \<and>
   select_error world_pending = None \<and>
   fst (serve sample_runtime ''POST'' world_pending [invoice_b]) = None"
  by code_simp

subsection \<open>Invoices without a due date\<close>

text \<open>
  C10. An invoice of the batch whose \<^verbatim>\<open>due_date\<close> is null or the empty string is
  skipped by the first guard of the loop body, before the window is looked at: the
  iteration completes and leaves the state as it was, so no profile is looked up, nothing
  is dispatched, no row is written and \<^verbatim>\<open>remindersSent\<close> keeps its value, whatever
  the status and the reminder count of the invoice are; the loop goes on with the next
  invoice.
\<close>

theorem absent_due_date_is_skipped:
  assumes "due_date iv = None \<or> due_date iv = Some []"
  shows "process_invoice rt t (ios k) iv st = (Normal, st) \<and>
         loop rt t ios k (iv # rest) st = loop rt t ios (Suc k) rest st"
proof -
  from assms have "no_due_date iv" by (auto simp: no_due_date_def)
  then have "process_invoice rt t (ios k) iv st = (Normal, st)"
    by (simp add: process_invoice_def)
  then show ?thesis by simp
qed

theorem absent_due_date_is_skipped_witness:
  "due_date invoice_undated = None \<and> status invoice_undated = ''open'' \<and>
   reminder_count invoice_undated = Some 0 \<and>
   process_invoice sample_runtime sample_now io_ok invoice_undated (start [invoice_undated]) =
     (Normal, start [invoice_undated]) \<and>
   loop sample_runtime sample_now (\<lambda>k. io_ok) 0 [invoice_undated, invoice_a]
       (start [invoice_undated, invoice_a]) =
     loop sample_runtime sample_now (\<lambda>k. io_ok) 1 [invoice_a]
       (start [invoice_undated, invoice_a])"
  using absent_due_date_is_skipped[of invoice_undated sample_runtime sample_now "\<lambda>k. io_ok" 0
      "start [invoice_undated]" "[]"]
    absent_due_date_is_skipped[of invoice_undated sample_runtime sample_now "\<lambda>k. io_ok" 0
      "start [invoice_undated, invoice_a]" "[invoice_a]"]
  by (simp add: invoice_undated_def)

end
